theory Spec2Isabelle
  imports Main "HOL-Library.Multiset"
begin

section \<open>Data model of \<open>orcabridge/source.py\<close>\<close>

text \<open>
  A path-like value is either a plain \<open>str\<close> or a \<open>Path\<close> object; Python tells the
  two apart (they never compare equal), so the model does too. A \<open>Path\<close> is held by its
  text. Text is a list of bytes: the arrow of \<open>__repr__\<close> is its three UTF-8 bytes.
\<close>

datatype pathlike = Str string | Path string

datatype pyval = PyStr string | PyInt int | PyPath pathlike

type_synonym tag = "string \<rightharpoonup> pyval"

type_synonym packet = "string \<rightharpoonup> pathlike"

type_synonym item = "tag \<times> packet"

datatype pyerror = TypeError | RuntimeError | Exception string

text \<open>
  What a call can raise. \<open>StopIteration\<close> is kept apart from the other exceptions: it is
  the signal of the iterator protocol, and a generator body that lets it escape does not
  hand it on (see \<open>leaves_generator\<close>).
\<close>

datatype raised = RaisedStopIteration | Raised pyerror

text \<open>
  A function object. Python compares and hashes functions by identity, so a function
  carries the identity of its object beside what it computes; a call may raise.
\<close>

datatype callable = Callable (ident: nat) (body: "pathlike \<Rightarrow> raised + tag")

definition call :: "callable \<Rightarrow> pathlike \<Rightarrow> raised + tag" where
  "call c f = body c f"

subsection \<open>The path library (POSIX flavour)\<close>

text \<open>
  Modelled from the spec: the pure path operations of the platform's path library
  (\<open>Path(f).stem\<close> and \<open>str(Path(d) / p)\<close>), which the source calls and which are not
  part of the repository. The stem is the final component without its extension; joining
  combines the root path and the pattern into a single path expression.
\<close>

fun split_sep :: "string \<Rightarrow> string list" where
  "split_sep [] = [[]]"
| "split_sep (c # cs) =
     (if c = CHR ''/'' then [] # split_sep cs
      else (case split_sep cs of [] \<Rightarrow> [[c]] | w # ws \<Rightarrow> (c # w) # ws))"

definition path_root :: "string \<Rightarrow> string" where
  "path_root s =
     (if take 2 s = ''//'' \<and> take 3 s \<noteq> ''///'' then ''//''
      else if take 1 s = ''/'' then ''/'' else '''')"

definition path_parts :: "string \<Rightarrow> string list" where
  "path_parts s = filter (\<lambda>w. w \<noteq> [] \<and> w \<noteq> ''.'') (split_sep s)"

fun text_of :: "pathlike \<Rightarrow> string" where
  "text_of (Str s) = s"
| "text_of (Path s) = s"

fun join_sep :: "string list \<Rightarrow> string" where
  "join_sep [] = []"
| "join_sep [w] = w"
| "join_sep (w # v # ws) = w @ ''/'' @ join_sep (v # ws)"

definition path_str :: "string \<Rightarrow> string list \<Rightarrow> string" where
  "path_str r ws = (if r = [] \<and> ws = [] then ''.'' else r @ join_sep ws)"

definition joinpath_str :: "pathlike \<Rightarrow> string \<Rightarrow> string" where
  "joinpath_str d p =
     (if path_root p \<noteq> [] then path_str (path_root p) (path_parts p)
      else path_str (path_root (text_of d)) (path_parts (text_of d) @ path_parts p))"

definition path_name :: "pathlike \<Rightarrow> string" where
  "path_name f = (case path_parts (text_of f) of [] \<Rightarrow> [] | w # ws \<Rightarrow> last (w # ws))"

definition rfind_dot :: "string \<Rightarrow> nat option" where
  "rfind_dot s =
     (if CHR ''.'' \<in> set s
      then Some (length s - Suc (length (takeWhile (\<lambda>c. c \<noteq> CHR ''.'') (rev s))))
      else None)"

definition path_stem :: "pathlike \<Rightarrow> string" where
  "path_stem f =
     (let name = path_name f in
      case rfind_dot name of
        None \<Rightarrow> name
      | Some i \<Rightarrow> if 0 < i \<and> i < length name - 1 then take i name else name)"

subsection \<open>\<open>GlobSource\<close>\<close>

text \<open>
  The attributes \<open>__init__\<close> sets, and the class of the instance (read by \<open>__hash__\<close> as
  \<open>self.__class__\<close>). An attribute can hold \<open>None\<close>, so \<open>tag_function\<close> is an option.
  \<open>Source.__init__\<close> also sets \<open>_source\<close> to the instance itself; nothing in the file
  reads it, and a record cannot hold itself, so the field is left out.
\<close>

record GlobSource =
  class_name :: string
  name :: string
  file_path :: pathlike
  pattern :: string
  tag_function :: "callable option"

text \<open>\<open>default_tag_function = lambda f: {"file_name": Path(f).stem}\<close>, one object of the class.\<close>

definition default_tag_function :: callable where
  "default_tag_function = Callable 0 (\<lambda>f. Inr [''file_name'' \<mapsto> PyStr (path_stem f)])"

text \<open>
  The world a program runs in: what the glob facility enumerates for a root and a
  pattern on the current filesystem (the matches in enumeration order, then the error
  that ends the enumeration, if any; an enumeration that just ends has none), the log of the scans performed so far, and the
  heap of iterator objects.
\<close>

type_synonym scan = "pathlike list \<times> pyerror option"

datatype 'a step = Yield 'a | StopIteration | Raise pyerror

datatype gen_state = Created | Running "pathlike list" "pyerror option" | Finished

datatype iter_state = IterCreated | Delegating nat | IterFinished

datatype obj = GenObj GlobSource gen_state | IterObj GlobSource iter_state

record world =
  glob :: "pathlike \<Rightarrow> string \<Rightarrow> scan"
  scans :: "(pathlike \<times> string) list"
  objects :: "nat \<rightharpoonup> obj"
  next_ref :: nat

text \<open>
  Modelled from the spec: the initialisers of the base classes \<open>Operation\<close> and
  \<open>SyncStream\<close> (\<open>base.py\<close> and \<open>stream.py\<close>, not in the sources), reached by
  \<open>super().__init__()\<close>. The spec gives a source no state beyond its attributes and
  says that constructing one does not touch the filesystem: they leave the world as it is.
\<close>

definition Operation_init :: "world \<Rightarrow> world" where
  "Operation_init w = w"

definition Source_init :: "world \<Rightarrow> world" where
  "Source_init w = Operation_init w"

text \<open>The attributes \<open>GlobSource.__init__\<close> stores.\<close>

definition new_GlobSource :: "string \<Rightarrow> pathlike \<Rightarrow> string \<Rightarrow> callable option \<Rightarrow> GlobSource" where
  "new_GlobSource n d p tf =
     (let tf' = (case tf of None \<Rightarrow> Some default_tag_function | Some t \<Rightarrow> Some t)
      in \<lparr>class_name = ''GlobSource'', name = n, file_path = d, pattern = p,
          tag_function = tf'\<rparr>)"

text \<open>The constructor call: the base initialisers run first, then the attributes are set.\<close>

definition GlobSource_init ::
  "string \<Rightarrow> pathlike \<Rightarrow> string \<Rightarrow> callable option \<Rightarrow> world \<Rightarrow> (pyerror + GlobSource) \<times> world" where
  "GlobSource_init n d p tf w = (let w' = Source_init w in (Inr (new_GlobSource n d p tf), w'))"

text \<open>\<open>self.tag_function(file)\<close>: calling \<open>None\<close> raises \<open>TypeError\<close>.\<close>

definition apply_tag_function :: "GlobSource \<Rightarrow> pathlike \<Rightarrow> raised + tag" where
  "apply_tag_function g f =
     (case tag_function g of None \<Rightarrow> Inl (Raised TypeError) | Some c \<Rightarrow> call c f)"

text \<open>\<open>__repr__\<close>: \<open>f"GlobSource({str(Path(self.file_path) / self.pattern)}) \<Rightarrow> {self.name}"\<close>.\<close>

definition arrow :: string where
  "arrow = [CHR 0x20, CHR 0xE2, CHR 0x87, CHR 0x92, CHR 0x20]"

definition GlobSource_repr :: "GlobSource \<Rightarrow> string" where
  "GlobSource_repr g =
     ''GlobSource('' @ joinpath_str (file_path g) (pattern g) @ '')'' @ arrow @ name g"

text \<open>
  \<open>__hash__\<close>: the hash of the tuple of the class and the four attributes. The hash
  functions of the interpreter are parameters: a tuple's hash is computed from its
  elements' hashes, a function's from its identity.
\<close>

record hasher =
  hash_type :: "string \<Rightarrow> int"
  hash_str :: "string \<Rightarrow> int"
  hash_pathlike :: "pathlike \<Rightarrow> int"
  hash_function :: "nat \<Rightarrow> int"
  hash_None :: int
  hash_tuple :: "int list \<Rightarrow> int"

definition GlobSource_hash :: "hasher \<Rightarrow> GlobSource \<Rightarrow> int" where
  "GlobSource_hash h g =
     hash_tuple h
       [hash_type h (class_name g), hash_str h (name g), hash_pathlike h (file_path g),
        hash_str h (pattern g),
        (case tag_function g of None \<Rightarrow> hash_None h | Some c \<Rightarrow> hash_function h (ident c))]"

text \<open>
  Modelled from the spec: the equality of two sources. \<open>source.py\<close> defines \<open>__hash__\<close>
  and no \<open>__eq__\<close>; the comparison is inherited from the base classes, which are not in
  the sources. The spec: two instances are equal iff
  \<open>(class, name, file_path, pattern, tag_function)\<close> are equal, a function being
  compared by identity.
\<close>

definition callable_eq :: "callable option \<Rightarrow> callable option \<Rightarrow> bool" where
  "callable_eq a b =
     (case (a, b) of
        (None, None) \<Rightarrow> True
      | (Some c, Some c') \<Rightarrow> ident c = ident c'
      | _ \<Rightarrow> False)"

definition GlobSource_eq :: "GlobSource \<Rightarrow> GlobSource \<Rightarrow> bool" where
  "GlobSource_eq a b =
     (class_name a = class_name b \<and> name a = name b \<and> file_path a = file_path b \<and>
      pattern a = pattern b \<and> callable_eq (tag_function a) (tag_function b))"

subsection \<open>Producing the stream\<close>

text \<open>
  An exception that leaves the body of a generator reaches the caller of \<open>next\<close> as it is,
  except \<open>StopIteration\<close>: the interpreter replaces it by
  \<open>RuntimeError("generator raised StopIteration")\<close>.
\<close>

fun leaves_generator :: "raised \<Rightarrow> pyerror" where
  "leaves_generator RaisedStopIteration = RuntimeError"
| "leaves_generator (Raised e) = e"

text \<open>
  The body of \<open>generator\<close> in \<open>forward\<close>, one \<open>next\<close> at a time:
  \<open>for file in Path(self.file_path).glob(self.pattern): yield self.tag_function(file), {self.name: file}\<close>.
  The glob is called when the body is first entered. A generator that has raised or
  returned is finished.
\<close>

fun generator_step :: "GlobSource \<Rightarrow> pathlike list \<Rightarrow> pyerror option \<Rightarrow> item step \<times> gen_state" where
  "generator_step g [] None = (StopIteration, Finished)"
| "generator_step g [] (Some e) = (Raise e, Finished)"
| "generator_step g (f # fs) e =
     (case apply_tag_function g f of
        Inl err \<Rightarrow> (Raise (leaves_generator err), Finished)
      | Inr t \<Rightarrow> (Yield (t, [name g \<mapsto> f]), Running fs e))"

definition generator_next :: "GlobSource \<Rightarrow> gen_state \<Rightarrow> world \<Rightarrow> (item step \<times> gen_state) \<times> world" where
  "generator_next g st w =
     (case st of
        Created \<Rightarrow>
          (let (fs, e) = glob w (file_path g) (pattern g)
           in (generator_step g fs e, w\<lparr>scans := scans w @ [(file_path g, pattern g)]\<rparr>))
      | Running fs e \<Rightarrow> (generator_step g fs e, w)
      | Finished \<Rightarrow> ((StopIteration, Finished), w))"

text \<open>
  \<open>forward\<close> wraps the generator function in a new stream object and runs nothing of it.
  Modelled from the spec: \<open>SyncStreamFromGenerator\<close> (\<open>stream.py\<close>, not in the sources),
  a stream whose iteration yields the pairs of the generator lazily, each computed when
  the consumer asks for it; the stream object is the iterator over its generator.
\<close>

definition forward :: "GlobSource \<Rightarrow> world \<Rightarrow> nat \<times> world" where
  "forward g w =
     (next_ref w,
      w\<lparr>objects := (objects w)(next_ref w \<mapsto> GenObj g Created), next_ref := Suc (next_ref w)\<rparr>)"

text \<open>
  Modelled from the spec: \<open>Operation.__call__\<close> (\<open>base.py\<close>, not in the sources), the
  invocation of a source with no input: it returns the stream of the production logic,
  a new stream object at every call.
\<close>

definition Source_call :: "GlobSource \<Rightarrow> world \<Rightarrow> nat \<times> world" where
  "Source_call g w = forward g w"

text \<open>\<open>next\<close> on a stream object.\<close>

definition no_object :: pyerror where
  "no_object = Exception ''no such object''"

definition gen_next_at :: "nat \<Rightarrow> world \<Rightarrow> (item step \<times> world) option" where
  "gen_next_at r w =
     (case objects w r of
        Some (GenObj g st) \<Rightarrow>
          (let ((s, st'), w') = generator_next g st w
           in Some (s, w'\<lparr>objects := (objects w')(r \<mapsto> GenObj g st')\<rparr>))
      | _ \<Rightarrow> None)"

text \<open>
  \<open>Source.__iter__\<close>: \<open>yield from self()\<close>. Calling it makes a generator object; its
  first \<open>next\<close> invokes the source, and every \<open>next\<close> is handed to the stream: an item is
  passed on, and the end or the error of the stream ends the generator.
\<close>

definition Source_iter :: "GlobSource \<Rightarrow> world \<Rightarrow> nat \<times> world" where
  "Source_iter g w =
     (next_ref w,
      w\<lparr>objects := (objects w)(next_ref w \<mapsto> IterObj g IterCreated), next_ref := Suc (next_ref w)\<rparr>)"

definition yield_from :: "nat \<Rightarrow> GlobSource \<Rightarrow> nat \<Rightarrow> world \<Rightarrow> item step \<times> world" where
  "yield_from r g r' w =
     (case gen_next_at r' w of
        None \<Rightarrow> (Raise no_object, w\<lparr>objects := (objects w)(r \<mapsto> IterObj g IterFinished)\<rparr>)
      | Some (Yield x, w') \<Rightarrow> (Yield x, w'\<lparr>objects := (objects w')(r \<mapsto> IterObj g (Delegating r'))\<rparr>)
      | Some (s, w') \<Rightarrow> (s, w'\<lparr>objects := (objects w')(r \<mapsto> IterObj g IterFinished)\<rparr>))"

definition next_at :: "nat \<Rightarrow> world \<Rightarrow> item step \<times> world" where
  "next_at r w =
     (case objects w r of
        None \<Rightarrow> (Raise no_object, w)
      | Some (GenObj g st) \<Rightarrow>
          (case gen_next_at r w of None \<Rightarrow> (Raise no_object, w) | Some sw \<Rightarrow> sw)
      | Some (IterObj g IterCreated) \<Rightarrow> (let (r', w') = Source_call g w in yield_from r g r' w')
      | Some (IterObj g (Delegating r')) \<Rightarrow> yield_from r g r' w
      | Some (IterObj g IterFinished) \<Rightarrow> (StopIteration, w))"

subsection \<open>Consuming a stream\<close>

text \<open>What an iterator object can still yield: the measure of the consumer's loop.\<close>

definition gen_remaining :: "(pathlike \<Rightarrow> string \<Rightarrow> scan) \<Rightarrow> GlobSource \<Rightarrow> gen_state \<Rightarrow> nat" where
  "gen_remaining gl g st =
     (case st of
        Created \<Rightarrow> Suc (length (fst (gl (file_path g) (pattern g))))
      | Running fs e \<Rightarrow> length fs
      | Finished \<Rightarrow> 0)"

definition remaining :: "nat \<Rightarrow> world \<Rightarrow> nat" where
  "remaining r w =
     (case objects w r of
        None \<Rightarrow> 0
      | Some (GenObj g st) \<Rightarrow> gen_remaining (glob w) g st
      | Some (IterObj g IterCreated) \<Rightarrow> Suc (gen_remaining (glob w) g Created)
      | Some (IterObj g (Delegating r')) \<Rightarrow>
          (case objects w r' of Some (GenObj g' st) \<Rightarrow> gen_remaining (glob w) g' st | _ \<Rightarrow> 0)
      | Some (IterObj g IterFinished) \<Rightarrow> 0)"

text \<open>The consumer: \<open>for item in it\<close>, collecting what it receives and how the iteration ends.\<close>

function consume :: "nat \<Rightarrow> world \<Rightarrow> (item list \<times> pyerror option) \<times> world" where
  "consume r w =
     (case next_at r w of
        (Yield x, w') \<Rightarrow> (let ((xs, e), w'') = consume r w' in ((x # xs, e), w''))
      | (StopIteration, w') \<Rightarrow> (([], None), w')
      | (Raise e, w') \<Rightarrow> (([], Some e), w'))"
  by pat_completeness auto

text \<open>What a consumer receives from a generator that still has the matches \<open>fs\<close> ahead.\<close>

fun run :: "GlobSource \<Rightarrow> pathlike list \<Rightarrow> pyerror option \<Rightarrow> item list \<times> pyerror option" where
  "run g [] e = ([], e)"
| "run g (f # fs) e =
     (case apply_tag_function g f of
        Inl err \<Rightarrow> ([], Some (leaves_generator err))
      | Inr t \<Rightarrow> (let (xs, e') = run g fs e in ((t, [name g \<mapsto> f]) # xs, e')))"

text \<open>The two ways to read a source to its end: \<open>list(source())\<close> and \<open>list(source)\<close>.\<close>

definition list_of_call :: "GlobSource \<Rightarrow> world \<Rightarrow> (item list \<times> pyerror option) \<times> world" where
  "list_of_call g w = (let (r, w') = Source_call g w in consume r w')"

definition list_of_iter :: "GlobSource \<Rightarrow> world \<Rightarrow> (item list \<times> pyerror option) \<times> world" where
  "list_of_iter g w = (let (r, w') = Source_iter g w in consume r w')"

text \<open>A consumer that asks a stream for \<open>k\<close> items and drops them.\<close>

fun advance :: "nat \<Rightarrow> nat \<Rightarrow> world \<Rightarrow> world" where
  "advance 0 r w = w"
| "advance (Suc k) r w = advance k r (snd (next_at r w))"

subsection \<open>Concrete inputs\<close>

text \<open>
  A filesystem with the directory \<open>data_dir\<close> holding \<open>a.txt\<close>, \<open>b.txt\<close> and \<open>c.log\<close>, and
  the directory \<open>reports\<close> holding \<open>20230101_report.txt\<close>; there is no \<open>no_such_dir\<close>.
  The glob facility is given by what it enumerates there.
\<close>

definition example_glob :: "pathlike \<Rightarrow> string \<Rightarrow> scan" where
  "example_glob d p =
     (if d = Str ''data_dir'' \<and> p = ''*.txt''
        then ([Path ''data_dir/a.txt'', Path ''data_dir/b.txt''], None)
      else if d = Str ''data_dir'' \<and> p = ''*''
        then ([Path ''data_dir/a.txt'', Path ''data_dir/b.txt'', Path ''data_dir/c.log''], None)
      else if d = Str ''reports'' \<and> p = ''*''
        then ([Path ''reports/20230101_report.txt''], None)
      else ([], None))"

definition example_world :: world where
  "example_world = \<lparr>glob = example_glob, scans = [], objects = Map.empty, next_ref = 0\<rparr>"

text \<open>\<open>lambda f: {'date': Path(f).stem[:8]}\<close>, the tag function of the docstring.\<close>

definition date_tag :: callable where
  "date_tag = Callable 1 (\<lambda>f. Inr [''date'' \<mapsto> PyStr (take 8 (path_stem f))])"

text \<open>A tag function that raises on the file whose stem is \<open>b\<close>.\<close>

definition failing_tag :: callable where
  "failing_tag = Callable 2 (\<lambda>f. if path_stem f = ''b'' then Inl (Raised (Exception ''bad file''))
                                   else Inr [''file_name'' \<mapsto> PyStr (path_stem f)])"

text \<open>
  A tag function that raises \<open>StopIteration\<close> on the file whose stem is \<open>b\<close>, as
  \<open>lambda f: {'label': next(labels)}\<close> does once \<open>labels\<close> is exhausted.
\<close>

definition exhausted_tag :: callable where
  "exhausted_tag = Callable 3 (\<lambda>f. if path_stem f = ''b'' then Inl RaisedStopIteration
                                     else Inr [''label'' \<mapsto> PyStr (path_stem f)])"

definition example_hasher :: hasher where
  "example_hasher = \<lparr>hash_type = (\<lambda>s. int (length s)), hash_str = (\<lambda>s. int (length s)),
     hash_pathlike = (\<lambda>p. int (length (text_of p))), hash_function = (\<lambda>i. int i),
     hash_None = 0, hash_tuple = (\<lambda>xs. foldl (\<lambda>h x. 31 * h + x) 7 xs)\<rparr>"

section \<open>Properties\<close>

subsection \<open>The consumer's loop ends\<close>

lemma generator_step_Yield:
  "generator_step g fs e = (Yield x, st') \<Longrightarrow> \<exists>f fs'. fs = f # fs' \<and> st' = Running fs' e"
  by (cases fs; cases e) (auto split: sum.splits)

lemma generator_next_glob: "glob (snd (generator_next g st w)) = glob w"
  by (auto simp: generator_next_def split: gen_state.splits prod.splits)

lemma generator_next_Yield:
  "generator_next g st w = ((Yield x, st'), w') \<Longrightarrow>
     glob w' = glob w \<and> (\<exists>fs e. st' = Running fs e \<and> length fs < gen_remaining (glob w) g st)"
  by (auto simp: generator_next_def gen_remaining_def split: gen_state.splits prod.splits
      dest!: generator_step_Yield)

lemma generator_next_world:
  "snd (generator_next g st w) =
     (if st = Created then w\<lparr>scans := scans w @ [(file_path g, pattern g)]\<rparr> else w)"
  by (auto simp: generator_next_def split: gen_state.splits prod.splits)

lemma generator_next_objects:
  "generator_next g st w = (sst, w') \<Longrightarrow> objects w' = objects w \<and> next_ref w' = next_ref w"
  using generator_next_world [of g st w] by (auto split: if_splits)

lemma gen_next_at_Yield:
  assumes "gen_next_at r w = Some (Yield x, w')"
  shows "glob w' = glob w \<and>
     (\<exists>g st fs e. objects w r = Some (GenObj g st) \<and> objects w' = (objects w)(r \<mapsto> GenObj g (Running fs e)) \<and>
        length fs < gen_remaining (glob w) g st)"
proof -
  from assms obtain g st st' w1 where o: "objects w r = Some (GenObj g st)"
    and n: "generator_next g st w = ((Yield x, st'), w1)"
    and w': "w' = w1\<lparr>objects := (objects w1)(r \<mapsto> GenObj g st')\<rparr>"
    by (auto simp: gen_next_at_def split: option.splits obj.splits prod.splits)
  from generator_next_Yield [OF n] obtain fs e where
    g: "glob w1 = glob w" and st': "st' = Running fs e" and l: "length fs < gen_remaining (glob w) g st"
    by blast
  from generator_next_objects [OF n] have "objects w1 = objects w" by simp
  with o w' g st' l show ?thesis by auto
qed

lemma yield_from_Yield:
  "yield_from r g r' w = (Yield x, w') \<Longrightarrow>
     \<exists>w1. gen_next_at r' w = Some (Yield x, w1) \<and>
       w' = w1\<lparr>objects := (objects w1)(r \<mapsto> IterObj g (Delegating r'))\<rparr>"
  by (auto simp: yield_from_def split: option.splits prod.splits step.splits)

lemma remaining_yield_from:
  assumes y: "yield_from r g r' w = (Yield x, w')"
  shows "\<exists>g' st. objects w r' = Some (GenObj g' st) \<and> glob w' = glob w \<and>
           remaining r w' < gen_remaining (glob w) g' st"
proof -
  from yield_from_Yield [OF y] obtain w1 where
    n: "gen_next_at r' w = Some (Yield x, w1)"
    and w': "w' = w1\<lparr>objects := (objects w1)(r \<mapsto> IterObj g (Delegating r'))\<rparr>"
    by blast
  from gen_next_at_Yield [OF n] obtain g' st fs e where
    gl: "glob w1 = glob w" and o: "objects w r' = Some (GenObj g' st)"
    and o1: "objects w1 = (objects w)(r' \<mapsto> GenObj g' (Running fs e))"
    and l: "length fs < gen_remaining (glob w) g' st"
    by blast
  have "remaining r w' \<le> length fs"
    using w' o1 by (simp add: remaining_def gen_remaining_def)
  with l o gl w' show ?thesis by auto
qed

lemma next_at_Yield:
  assumes "next_at r w = (Yield x, w')"
  shows "remaining r w' < remaining r w"
proof (cases "objects w r")
  case None
  with assms show ?thesis by (simp add: next_at_def)
next
  case (Some ob)
  show ?thesis
  proof (cases ob)
    case (GenObj g st)
    with Some assms have n: "gen_next_at r w = Some (Yield x, w')"
      by (auto simp: next_at_def split: option.splits)
    from gen_next_at_Yield [OF n] Some GenObj show ?thesis
      by (auto simp: remaining_def gen_remaining_def)
  next
    case (IterObj g ist)
    show ?thesis
    proof (cases ist)
      case IterCreated
      with Some IterObj assms
      have y: "yield_from r g (next_ref w)
          (w\<lparr>objects := (objects w)(next_ref w \<mapsto> GenObj g Created), next_ref := Suc (next_ref w)\<rparr>) = (Yield x, w')"
        by (simp add: next_at_def Source_call_def forward_def)
      from remaining_yield_from [OF y] Some IterObj IterCreated show ?thesis
        by (auto simp: remaining_def gen_remaining_def)
    next
      case (Delegating r')
      with Some IterObj assms have y: "yield_from r g r' w = (Yield x, w')"
        by (simp add: next_at_def)
      from remaining_yield_from [OF y] Some IterObj Delegating show ?thesis
        by (auto simp: remaining_def)
    next
      case IterFinished
      with Some IterObj assms show ?thesis by (simp add: next_at_def)
    qed
  qed
qed

termination consume
  by (relation "measure (\<lambda>(r, w). remaining r w)") (auto dest: next_at_Yield [OF sym])

declare consume.simps [simp del]

subsection \<open>What a consumer receives\<close>

lemma next_at_Running_Nil:
  "objects w r = Some (GenObj g (Running [] e)) \<Longrightarrow>
     next_at r w = ((case e of None \<Rightarrow> StopIteration | Some err \<Rightarrow> Raise err),
                    w\<lparr>objects := (objects w)(r \<mapsto> GenObj g Finished)\<rparr>)"
  by (cases e) (simp_all add: next_at_def gen_next_at_def generator_next_def)

lemma next_at_Running_Cons:
  "objects w r = Some (GenObj g (Running (f # fs) e)) \<Longrightarrow>
     next_at r w =
       (case apply_tag_function g f of
          Inl err \<Rightarrow> (Raise (leaves_generator err), w\<lparr>objects := (objects w)(r \<mapsto> GenObj g Finished)\<rparr>)
        | Inr t \<Rightarrow> (Yield (t, [name g \<mapsto> f]), w\<lparr>objects := (objects w)(r \<mapsto> GenObj g (Running fs e))\<rparr>))"
  by (simp add: next_at_def gen_next_at_def generator_next_def split: sum.splits)

lemma consume_Running:
  "objects w r = Some (GenObj g (Running fs e)) \<Longrightarrow>
     consume r w = (run g fs e, w\<lparr>objects := (objects w)(r \<mapsto> GenObj g Finished)\<rparr>)"
proof (induction fs arbitrary: w)
  case Nil
  then show ?case
    by (subst consume.simps) (simp add: next_at_Running_Nil split: option.splits)
next
  case (Cons f fs)
  show ?case
  proof (cases "apply_tag_function g f")
    case (Inl err)
    with Cons.prems show ?thesis
      by (subst consume.simps) (simp add: next_at_Running_Cons)
  next
    case (Inr t)
    let ?w' = "w\<lparr>objects := (objects w)(r \<mapsto> GenObj g (Running fs e))\<rparr>"
    have "consume r ?w' = (run g fs e, ?w'\<lparr>objects := (objects ?w')(r \<mapsto> GenObj g Finished)\<rparr>)"
      by (rule Cons.IH) simp
    with Cons.prems Inr show ?thesis
      by (subst consume.simps) (simp add: next_at_Running_Cons split: prod.splits)
  qed
qed


lemma consume_Finished:
  "objects w r = Some (GenObj g Finished) \<Longrightarrow>
     consume r w = (([], None), w\<lparr>objects := (objects w)(r \<mapsto> GenObj g Finished)\<rparr>)"
  by (subst consume.simps) (simp add: next_at_def gen_next_at_def generator_next_def)

lemma next_at_Created:
  "objects w r = Some (GenObj g Created) \<Longrightarrow>
     next_at r w =
       next_at r (w\<lparr>scans := scans w @ [(file_path g, pattern g)],
                    objects := (objects w)(r \<mapsto> GenObj g
                        (Running (fst (glob w (file_path g) (pattern g)))
                                 (snd (glob w (file_path g) (pattern g)))))\<rparr>)"
  by (simp add: next_at_def gen_next_at_def generator_next_def split: prod.splits)

lemma consume_Created:
  assumes "objects w r = Some (GenObj g Created)"
  shows "consume r w =
     (run g (fst (glob w (file_path g) (pattern g))) (snd (glob w (file_path g) (pattern g))),
      w\<lparr>scans := scans w @ [(file_path g, pattern g)],
        objects := (objects w)(r \<mapsto> GenObj g Finished)\<rparr>)"
proof -
  let ?fs = "fst (glob w (file_path g) (pattern g))" and ?e = "snd (glob w (file_path g) (pattern g))"
  let ?w' = "w\<lparr>scans := scans w @ [(file_path g, pattern g)],
               objects := (objects w)(r \<mapsto> GenObj g (Running ?fs ?e))\<rparr>"
  have "consume r w = consume r ?w'"
    by (subst consume.simps, subst (2) consume.simps) (simp add: next_at_Created [OF assms])
  also have "\<dots> = (run g ?fs ?e, ?w'\<lparr>objects := (objects ?w')(r \<mapsto> GenObj g Finished)\<rparr>)"
    by (rule consume_Running) simp
  finally show ?thesis by simp
qed

lemma list_of_call_run:
  "list_of_call g w =
     (run g (fst (glob w (file_path g) (pattern g))) (snd (glob w (file_path g) (pattern g))),
      w\<lparr>scans := scans w @ [(file_path g, pattern g)],
        objects := (objects w)(next_ref w \<mapsto> GenObj g Finished),
        next_ref := Suc (next_ref w)\<rparr>)"
  by (simp add: list_of_call_def Source_call_def forward_def consume_Created)


lemma next_at_Delegating_Nil:
  "objects w r = Some (IterObj g (Delegating r')) \<Longrightarrow>
   objects w r' = Some (GenObj g' (Running [] e)) \<Longrightarrow>
     next_at r w = ((case e of None \<Rightarrow> StopIteration | Some err \<Rightarrow> Raise err),
        w\<lparr>objects := (objects w)(r' \<mapsto> GenObj g' Finished, r \<mapsto> IterObj g IterFinished)\<rparr>)"
  by (cases e) (simp_all add: next_at_def yield_from_def gen_next_at_def generator_next_def)

lemma next_at_Delegating_Cons:
  "objects w r = Some (IterObj g (Delegating r')) \<Longrightarrow>
   objects w r' = Some (GenObj g' (Running (f # fs) e)) \<Longrightarrow>
     next_at r w =
       (case apply_tag_function g' f of
          Inl err \<Rightarrow> (Raise (leaves_generator err),
            w\<lparr>objects := (objects w)(r' \<mapsto> GenObj g' Finished, r \<mapsto> IterObj g IterFinished)\<rparr>)
        | Inr t \<Rightarrow> (Yield (t, [name g' \<mapsto> f]),
            w\<lparr>objects := (objects w)(r' \<mapsto> GenObj g' (Running fs e), r \<mapsto> IterObj g (Delegating r'))\<rparr>))"
  by (simp add: next_at_def yield_from_def gen_next_at_def generator_next_def split: sum.splits)

lemma consume_Delegating:
  "objects w r = Some (IterObj g (Delegating r')) \<Longrightarrow>
   objects w r' = Some (GenObj g' (Running fs e)) \<Longrightarrow>
     consume r w = (run g' fs e,
        w\<lparr>objects := (objects w)(r' \<mapsto> GenObj g' Finished, r \<mapsto> IterObj g IterFinished)\<rparr>)"
proof (induction fs arbitrary: w)
  case Nil
  then show ?case
    by (subst consume.simps) (simp add: next_at_Delegating_Nil split: option.splits)
next
  case (Cons f fs)
  from Cons.prems have ne: "r \<noteq> r'" by auto
  show ?case
  proof (cases "apply_tag_function g' f")
    case (Inl err)
    with Cons.prems show ?thesis
      by (subst consume.simps) (simp add: next_at_Delegating_Cons)
  next
    case (Inr t)
    let ?w' = "w\<lparr>objects := (objects w)(r' \<mapsto> GenObj g' (Running fs e), r \<mapsto> IterObj g (Delegating r'))\<rparr>"
    have "consume r ?w' = (run g' fs e,
        ?w'\<lparr>objects := (objects ?w')(r' \<mapsto> GenObj g' Finished, r \<mapsto> IterObj g IterFinished)\<rparr>)"
      using ne by (intro Cons.IH) simp_all
    moreover have "(objects ?w')(r' \<mapsto> GenObj g' Finished, r \<mapsto> IterObj g IterFinished) =
        (objects w)(r' \<mapsto> GenObj g' Finished, r \<mapsto> IterObj g IterFinished)"
      using ne by (auto simp: fun_eq_iff)
    ultimately show ?thesis
      using Cons.prems Inr
      by (subst consume.simps) (simp add: next_at_Delegating_Cons split: prod.splits)
  qed
qed

lemma next_at_IterCreated:
  assumes "objects w r = Some (IterObj g IterCreated)" and "r \<noteq> next_ref w"
  shows "next_at r w =
       next_at r (w\<lparr>scans := scans w @ [(file_path g, pattern g)],
          objects := (objects w)(next_ref w \<mapsto> GenObj g
                        (Running (fst (glob w (file_path g) (pattern g)))
                                 (snd (glob w (file_path g) (pattern g)))),
                      r \<mapsto> IterObj g (Delegating (next_ref w))),
          next_ref := Suc (next_ref w)\<rparr>)"
  using assms
  by (simp add: next_at_def yield_from_def gen_next_at_def generator_next_def
      Source_call_def forward_def fun_upd_twist split: prod.splits step.splits)

lemma consume_IterCreated:
  assumes o: "objects w r = Some (IterObj g IterCreated)" and ne: "r \<noteq> next_ref w"
  shows "consume r w =
     (run g (fst (glob w (file_path g) (pattern g))) (snd (glob w (file_path g) (pattern g))),
      w\<lparr>scans := scans w @ [(file_path g, pattern g)],
        objects := (objects w)(next_ref w \<mapsto> GenObj g Finished, r \<mapsto> IterObj g IterFinished),
        next_ref := Suc (next_ref w)\<rparr>)"
proof -
  let ?fs = "fst (glob w (file_path g) (pattern g))" and ?e = "snd (glob w (file_path g) (pattern g))"
  let ?w' = "w\<lparr>scans := scans w @ [(file_path g, pattern g)],
          objects := (objects w)(next_ref w \<mapsto> GenObj g (Running ?fs ?e),
                      r \<mapsto> IterObj g (Delegating (next_ref w))),
          next_ref := Suc (next_ref w)\<rparr>"
  have a: "consume r w = consume r ?w'"
    by (subst consume.simps, subst (2) consume.simps) (simp add: next_at_IterCreated [OF o ne])
  have b: "consume r ?w' = (run g ?fs ?e,
      ?w'\<lparr>objects := (objects ?w')(next_ref w \<mapsto> GenObj g Finished, r \<mapsto> IterObj g IterFinished)\<rparr>)"
    using ne by (intro consume_Delegating) simp_all
  have c: "(objects ?w')(next_ref w \<mapsto> GenObj g Finished, r \<mapsto> IterObj g IterFinished) =
      (objects w)(next_ref w \<mapsto> GenObj g Finished, r \<mapsto> IterObj g IterFinished)"
    using ne by (auto simp: fun_eq_iff)
  show ?thesis unfolding a b c by simp
qed

lemma list_of_iter_run:
  "list_of_iter g w =
     (run g (fst (glob w (file_path g) (pattern g))) (snd (glob w (file_path g) (pattern g))),
      w\<lparr>scans := scans w @ [(file_path g, pattern g)],
        objects := (objects w)(next_ref w \<mapsto> IterObj g IterFinished, Suc (next_ref w) \<mapsto> GenObj g Finished),
        next_ref := Suc (Suc (next_ref w))\<rparr>)"
proof -
  let ?w1 = "w\<lparr>objects := (objects w)(next_ref w \<mapsto> IterObj g IterCreated), next_ref := Suc (next_ref w)\<rparr>"
  have a: "list_of_iter g w = consume (next_ref w) ?w1"
    by (simp add: list_of_iter_def Source_iter_def)
  have b: "consume (next_ref w) ?w1 = (run g (fst (glob ?w1 (file_path g) (pattern g))) (snd (glob ?w1 (file_path g) (pattern g))),
      ?w1\<lparr>scans := scans ?w1 @ [(file_path g, pattern g)],
        objects := (objects ?w1)(next_ref ?w1 \<mapsto> GenObj g Finished, next_ref w \<mapsto> IterObj g IterFinished),
        next_ref := Suc (next_ref ?w1)\<rparr>)"
    by (rule consume_IterCreated) simp_all
  have c: "(objects ?w1)(next_ref ?w1 \<mapsto> GenObj g Finished, next_ref w \<mapsto> IterObj g IterFinished) =
     (objects w)(next_ref w \<mapsto> IterObj g IterFinished, Suc (next_ref w) \<mapsto> GenObj g Finished)"
    by (auto simp: fun_eq_iff)
  show ?thesis unfolding a b c by simp
qed

subsection \<open>Auxiliary facts\<close>

lemma new_GlobSource_simps:
  "class_name (new_GlobSource n d p tf) = ''GlobSource''"
  "name (new_GlobSource n d p tf) = n"
  "file_path (new_GlobSource n d p tf) = d"
  "pattern (new_GlobSource n d p tf) = p"
  "tag_function (new_GlobSource n d p tf) =
     Some (case tf of None \<Rightarrow> default_tag_function | Some c \<Rightarrow> c)"
  by (simp_all add: new_GlobSource_def split: option.splits)

lemma run_returns:
  "\<forall>f\<in>set fs. apply_tag_function g f = Inr (t f) \<Longrightarrow>
     run g fs e = (map (\<lambda>f. (t f, [name g \<mapsto> f])) fs, e)"
  by (induction fs) simp_all

lemma run_raises:
  "\<forall>x\<in>set pre. apply_tag_function g x = Inr (t x) \<Longrightarrow> apply_tag_function g f = Inl err \<Longrightarrow>
     run g (pre @ f # post) e = (map (\<lambda>x. (t x, [name g \<mapsto> x])) pre, Some (leaves_generator err))"
  by (induction pre) simp_all

lemma next_at_GenObj_step:
  assumes "objects w r = Some (GenObj g st)"
  shows "glob (snd (next_at r w)) = glob w \<and> next_ref (snd (next_at r w)) = next_ref w \<and>
         (\<exists>st'. objects (snd (next_at r w)) = (objects w)(r \<mapsto> GenObj g st'))"
proof -
  obtain s st' w1 where n: "generator_next g st w = ((s, st'), w1)"
    by (metis prod.exhaust)
  with assms have "next_at r w = (s, w1\<lparr>objects := (objects w1)(r \<mapsto> GenObj g st')\<rparr>)"
    by (simp add: next_at_def gen_next_at_def)
  with generator_next_objects [OF n] generator_next_glob [of g st w] n show ?thesis
    by auto
qed

lemma advance_GenObj:
  "objects w r = Some (GenObj g st) \<Longrightarrow>
     glob (advance k r w) = glob w \<and> next_ref (advance k r w) = next_ref w \<and>
     (\<forall>r'. r' \<noteq> r \<longrightarrow> objects (advance k r w) r' = objects w r') \<and>
     (\<exists>st'. objects (advance k r w) r = Some (GenObj g st'))"
proof (induction k arbitrary: w st)
  case 0
  then show ?case by simp
next
  case (Suc k)
  from next_at_GenObj_step [OF Suc.prems] obtain st' where
    g: "glob (snd (next_at r w)) = glob w" and n: "next_ref (snd (next_at r w)) = next_ref w"
    and o: "objects (snd (next_at r w)) = (objects w)(r \<mapsto> GenObj g st')"
    by blast
  from o have "objects (snd (next_at r w)) r = Some (GenObj g st')" by simp
  from Suc.IH [OF this] g n o show ?case by simp
qed

lemma consume_same_state:
  assumes "objects w r = Some (GenObj g st)" and "objects v r = Some (GenObj g st)"
    and "glob v = glob w"
  shows "fst (consume r v) = fst (consume r w)"
proof (cases st)
  case Created
  with assms show ?thesis by (simp add: consume_Created)
next
  case (Running fs e)
  with assms show ?thesis by (simp add: consume_Running)
next
  case Finished
  with assms show ?thesis by (simp add: consume_Finished)
qed

lemma consume_after_other:
  assumes "r \<noteq> r'" and "objects w r = Some (GenObj g st)" and "objects w r' = Some (GenObj g' st')"
  shows "fst (consume r' (advance k r w)) = fst (consume r' w)"
proof -
  from advance_GenObj [OF assms(2), of k] assms(1)
  have "objects (advance k r w) r' = objects w r'" and "glob (advance k r w) = glob w"
    by auto
  with assms(3) show ?thesis
    by (intro consume_same_state [where st = st' and g = g']) simp_all
qed

lemma advance_Finished:
  "objects w r = Some (GenObj g Finished) \<Longrightarrow> objects (advance j r w) r = Some (GenObj g Finished)"
proof (induction j arbitrary: w)
  case 0
  then show ?case by simp
next
  case (Suc j)
  from Suc.prems have "objects (snd (next_at r w)) r = Some (GenObj g Finished)"
    by (simp add: next_at_def gen_next_at_def generator_next_def)
  from Suc.IH [OF this] show ?case by simp
qed

lemma consume_advance_Running:
  "objects w r = Some (GenObj g (Running fs e)) \<Longrightarrow>
     fst (fst (consume r (advance j r w))) = drop j (fst (run g fs e))"
proof (induction j arbitrary: w fs)
  case 0
  then show ?case by (simp add: consume_Running)
next
  case (Suc j)
  show ?case
  proof (cases fs)
    case Nil
    with Suc.prems have "objects (snd (next_at r w)) r = Some (GenObj g Finished)"
      by (simp add: next_at_Running_Nil)
    from advance_Finished [OF this, of j] Nil show ?thesis
      by (simp add: consume_Finished)
  next
    case (Cons f fs')
    show ?thesis
    proof (cases "apply_tag_function g f")
      case (Inl err)
      with Suc.prems Cons have "objects (snd (next_at r w)) r = Some (GenObj g Finished)"
        by (simp add: next_at_Running_Cons)
      from advance_Finished [OF this, of j] Cons Inl show ?thesis
        by (simp add: consume_Finished)
    next
      case (Inr t)
      with Suc.prems Cons have "objects (snd (next_at r w)) r = Some (GenObj g (Running fs' e))"
        by (simp add: next_at_Running_Cons)
      from Suc.IH [OF this] Cons Inr show ?thesis
        by (simp split: prod.splits)
    qed
  qed
qed

lemma consume_advance_Created:
  assumes "objects w r = Some (GenObj g Created)"
  shows "fst (fst (consume r (advance j r w))) =
     drop j (fst (run g (fst (glob w (file_path g) (pattern g))) (snd (glob w (file_path g) (pattern g)))))"
proof (cases j)
  case 0
  with assms show ?thesis by (simp add: consume_Created)
next
  case (Suc i)
  let ?w' = "w\<lparr>scans := scans w @ [(file_path g, pattern g)],
                    objects := (objects w)(r \<mapsto> GenObj g
                        (Running (fst (glob w (file_path g) (pattern g)))
                                 (snd (glob w (file_path g) (pattern g)))))\<rparr>"
  have "advance j r w = advance j r ?w'"
    using Suc next_at_Created [OF assms] by simp
  moreover have "fst (fst (consume r (advance j r ?w'))) =
      drop j (fst (run g (fst (glob w (file_path g) (pattern g))) (snd (glob w (file_path g) (pattern g)))))"
    by (rule consume_advance_Running) simp
  ultimately show ?thesis by simp
qed

lemma stem_a: "path_stem (Path ''data_dir/a.txt'') = ''a''"
  by code_simp

lemma stem_b: "path_stem (Path ''data_dir/b.txt'') = ''b''"
  by code_simp

lemma stem_report: "path_stem (Path ''reports/20230101_report.txt'') = ''20230101_report''"
  by code_simp

lemma join_data_dir_txt: "joinpath_str (Str ''data_dir'') ''*.txt'' = ''data_dir/*.txt''"
  by code_simp

subsection \<open>The stream of a source\<close>

text \<open>
  Claim C1. Invoking a \<open>GlobSource\<close> with key name \<open>n\<close>, root \<open>d\<close>, pattern \<open>p\<close> and a tag
  function that returns the tag \<open>t f\<close> on every match gives a stream with exactly one
  item per entry the glob facility matches under \<open>d\<close>, in its order: the pair of \<open>t f\<close> and
  the packet \<open>{n: f}\<close>. Nothing else is yielded, and the stream ends as the enumeration does.
\<close>

theorem forward_one_item_per_match:
  assumes "\<forall>f\<in>set (fst (glob w d p)). apply_tag_function (new_GlobSource n d p tf) f = Inr (t f)"
  shows "fst (list_of_call (new_GlobSource n d p tf) w) =
           (map (\<lambda>f. (t f, [n \<mapsto> f])) (fst (glob w d p)), snd (glob w d p))"
  using run_returns [of "fst (glob w d p)" "new_GlobSource n d p tf" t "snd (glob w d p)"] assms
  by (simp add: list_of_call_run new_GlobSource_simps)

theorem forward_one_item_per_match_witness:
  "fst (list_of_call (new_GlobSource ''file'' (Str ''reports'') ''*'' (Some date_tag)) example_world) =
     ([([''date'' \<mapsto> PyStr ''20230101''], [''file'' \<mapsto> Path ''reports/20230101_report.txt''])], None)"
proof -
  have h: "\<forall>f\<in>set (fst (glob example_world (Str ''reports'') ''*'')).
      apply_tag_function (new_GlobSource ''file'' (Str ''reports'') ''*'' (Some date_tag)) f =
        Inr [''date'' \<mapsto> PyStr (take 8 (path_stem f))]"
    by (simp add: apply_tag_function_def new_GlobSource_simps call_def date_tag_def)
  from forward_one_item_per_match [OF h] show ?thesis
    by (simp add: example_world_def example_glob_def stem_report)
qed

text \<open>
  Claim C3. A \<open>GlobSource\<close> constructed with \<open>tag_function = None\<close> tags every matched file
  \<open>f\<close> with the single-key mapping \<open>{"file_name": stem f}\<close>, the stem being the final path
  component without its extension; the default tag function is a function of the path
  alone, so two applications to one path give the same tag.
\<close>

theorem default_tag_is_stem:
  "fst (list_of_call (new_GlobSource n d p None) w) =
     (map (\<lambda>f. ([''file_name'' \<mapsto> PyStr (path_stem f)], [n \<mapsto> f])) (fst (glob w d p)),
      snd (glob w d p)) \<and>
   call default_tag_function f = Inr [''file_name'' \<mapsto> PyStr (path_stem f)]"
proof -
  have "\<forall>f\<in>set (fst (glob w d p)). apply_tag_function (new_GlobSource n d p None) f =
          Inr [''file_name'' \<mapsto> PyStr (path_stem f)]"
    by (simp add: apply_tag_function_def new_GlobSource_simps call_def default_tag_function_def)
  from run_returns [OF this, of "snd (glob w d p)"] show ?thesis
    by (simp add: list_of_call_run new_GlobSource_simps call_def default_tag_function_def)
qed

theorem default_tag_is_stem_witness:
  "fst (list_of_call (new_GlobSource ''txt_file'' (Str ''data_dir'') ''*.txt'' None) example_world) =
     ([([''file_name'' \<mapsto> PyStr ''a''], [''txt_file'' \<mapsto> Path ''data_dir/a.txt'']),
       ([''file_name'' \<mapsto> PyStr ''b''], [''txt_file'' \<mapsto> Path ''data_dir/b.txt''])], None) \<and>
   call default_tag_function (Path ''data_dir/a.txt'') = Inr [''file_name'' \<mapsto> PyStr ''a'']"
  using default_tag_is_stem [of "''txt_file''" "Str ''data_dir''" "''*.txt''" example_world
      "Path ''data_dir/a.txt''"]
  by (simp add: example_world_def example_glob_def stem_a stem_b)

text \<open>
  Claim C4. Iterating a source directly yields the same sequence of (tag, packet) pairs,
  ended the same way, as invoking it and iterating the stream it returns, on the same
  filesystem; both scan the filesystem once.
\<close>

theorem iter_same_as_call:
  "fst (list_of_iter g w) = fst (list_of_call g w) \<and>
   scans (snd (list_of_iter g w)) = scans (snd (list_of_call g w))"
  by (simp add: list_of_iter_run list_of_call_run)

theorem iter_same_as_call_witness:
  "fst (list_of_iter (new_GlobSource ''file'' (Str ''reports'') ''*'' None) example_world) =
     ([([''file_name'' \<mapsto> PyStr ''20230101_report''],
        [''file'' \<mapsto> Path ''reports/20230101_report.txt''])], None)"
  using iter_same_as_call [of "new_GlobSource ''file'' (Str ''reports'') ''*'' None" example_world]
  by (simp add: list_of_call_run new_GlobSource_simps example_world_def example_glob_def
      apply_tag_function_def call_def default_tag_function_def stem_report)



text \<open>
  Claim C6. Constructing a \<open>GlobSource\<close> returns the instance, whatever the arguments
  (the root may not exist), and leaves the world as it was: no scan of the filesystem.
  Invoking it scans nothing either; reading the stream scans the root once.
\<close>

theorem init_lazy:
  "GlobSource_init n d p tf w = (Inr (new_GlobSource n d p tf), w) \<and>
   scans (snd (Source_call (new_GlobSource n d p tf) w)) = scans w \<and>
   scans (snd (list_of_call (new_GlobSource n d p tf) w)) = scans w @ [(d, p)]"
  by (simp add: GlobSource_init_def Source_init_def Operation_init_def Source_call_def forward_def
      list_of_call_run new_GlobSource_simps)

theorem init_lazy_witness:
  "GlobSource_init ''file'' (Str ''no_such_dir'') ''*'' None example_world =
     (Inr (new_GlobSource ''file'' (Str ''no_such_dir'') ''*'' None), example_world) \<and>
   scans (snd (list_of_call (new_GlobSource ''file'' (Str ''no_such_dir'') ''*'' None) example_world)) =
     [(Str ''no_such_dir'', ''*'')]"
  using init_lazy [of "''file''" "Str ''no_such_dir''" "''*''" None example_world]
  by (simp add: example_world_def)

text \<open>
  Claim C7, as the code has it. When the tag function raises on a matched file \<open>f\<close> and
  returns on the matches enumerated before it, the stream yields the items of those matches
  unchanged, then an error reaches the consumer at the position of \<open>f\<close>, and the stream is
  finished: asked again, it yields nothing more. The error is the one the tag function
  raised, unless that is \<open>StopIteration\<close>: then the consumer receives \<open>RuntimeError\<close>.
\<close>

theorem tag_failure_stops_stream:
  assumes "glob w d p = (pre @ f # post, e)"
    and "\<forall>x\<in>set pre. apply_tag_function (new_GlobSource n d p tf) x = Inr (t x)"
    and "apply_tag_function (new_GlobSource n d p tf) f = Inl err"
  shows "fst (list_of_call (new_GlobSource n d p tf) w) =
           (map (\<lambda>x. (t x, [n \<mapsto> x])) pre, Some (leaves_generator err)) \<and>
         fst (next_at (fst (Source_call (new_GlobSource n d p tf) w))
                (snd (list_of_call (new_GlobSource n d p tf) w))) = StopIteration \<and>
         (\<forall>x. err = Raised x \<longrightarrow> leaves_generator err = x) \<and>
         (err = RaisedStopIteration \<longrightarrow> leaves_generator err = RuntimeError)"
  using run_raises [OF assms(2,3), of post e] assms(1)
  by (simp add: list_of_call_run new_GlobSource_simps Source_call_def forward_def
      next_at_def gen_next_at_def generator_next_def)

theorem tag_failure_stops_stream_witness:
  "fst (list_of_call (new_GlobSource ''file'' (Str ''data_dir'') ''*'' (Some failing_tag)) example_world) =
     ([([''file_name'' \<mapsto> PyStr ''a''], [''file'' \<mapsto> Path ''data_dir/a.txt''])],
      Some (Exception ''bad file''))"
proof -
  let ?g = "new_GlobSource ''file'' (Str ''data_dir'') ''*'' (Some failing_tag)"
  have a: "glob example_world (Str ''data_dir'') ''*'' =
      ([Path ''data_dir/a.txt''] @ Path ''data_dir/b.txt'' # [Path ''data_dir/c.log''], None)"
    by (simp add: example_world_def example_glob_def)
  have b: "\<forall>x\<in>set [Path ''data_dir/a.txt'']. apply_tag_function ?g x =
      Inr [''file_name'' \<mapsto> PyStr (path_stem x)]"
    by (simp add: apply_tag_function_def new_GlobSource_simps call_def failing_tag_def stem_a)
  have c: "apply_tag_function ?g (Path ''data_dir/b.txt'') = Inl (Raised (Exception ''bad file''))"
    by (simp add: apply_tag_function_def new_GlobSource_simps call_def failing_tag_def stem_b)
  from tag_failure_stops_stream [OF a b c] show ?thesis
    by (simp add: stem_a)
qed

text \<open>
  The error of the tag function does not always reach the consumer as it was raised: on
  \<open>b.txt\<close> this tag function raises \<open>StopIteration\<close>, and the consumer of the stream
  receives \<open>RuntimeError\<close> after the item of \<open>a.txt\<close>.
\<close>

theorem tag_failure_counterexample:
  "apply_tag_function (new_GlobSource ''file'' (Str ''data_dir'') ''*'' (Some exhausted_tag))
       (Path ''data_dir/b.txt'') = Inl RaisedStopIteration \<and>
   fst (list_of_call (new_GlobSource ''file'' (Str ''data_dir'') ''*'' (Some exhausted_tag)) example_world) =
     ([([''label'' \<mapsto> PyStr ''a''], [''file'' \<mapsto> Path ''data_dir/a.txt''])], Some RuntimeError) \<and>
   Raised RuntimeError \<noteq> RaisedStopIteration"
  by (simp add: list_of_call_run new_GlobSource_simps example_world_def example_glob_def
      apply_tag_function_def call_def exhausted_tag_def stem_a stem_b)

text \<open>
  Claim C8. Two invocations of one \<open>GlobSource\<close> give two distinct stream objects, and
  neither disturbs the other. A stream that has yielded \<open>j\<close> items has the rest of the
  listing ahead, whatever is done with the other: advancing the other by any number of
  items, reading it to its end, or invoking the source once more and reading that stream
  changes nothing of what this one still yields; this holds in every state the two
  streams can be in. Read one after the other on an unchanged filesystem they yield the
  same items (so the same multiset), and each of them scans the filesystem anew.
\<close>

theorem invocations_independent:
  "let c1 = Source_call g w; r1 = fst c1; c2 = Source_call g (snd c1); r2 = fst c2; w2 = snd c2 in
     r1 \<noteq> r2 \<and>
     fst (consume r2 (advance k r1 w2)) = fst (list_of_call g w) \<and>
     fst (consume r1 (advance k r2 w2)) = fst (list_of_call g w) \<and>
     fst (consume r2 (snd (consume r1 w2))) = fst (consume r1 w2) \<and>
     mset (fst (fst (consume r1 w2))) = mset (fst (fst (consume r2 (snd (consume r1 w2))))) \<and>
     scans (snd (consume r2 (snd (consume r1 w2)))) =
       scans w @ [(file_path g, pattern g), (file_path g, pattern g)] \<and>
     fst (fst (consume r2 (advance j r2 w2))) = drop j (fst (fst (list_of_call g w))) \<and>
     fst (fst (consume r1 (advance j r1 w2))) = drop j (fst (fst (list_of_call g w))) \<and>
     fst (consume r2 (advance k r1 (advance j r2 w2))) = fst (consume r2 (advance j r2 w2)) \<and>
     fst (consume r1 (advance k r2 (advance j r1 w2))) = fst (consume r1 (advance j r1 w2)) \<and>
     fst (consume r2 (snd (consume r1 (advance j r2 w2)))) = fst (consume r2 (advance j r2 w2)) \<and>
     fst (consume r2 (snd (list_of_call g (advance j r2 w2)))) = fst (consume r2 (advance j r2 w2)) \<and>
     (\<forall>w' s1 s2. objects w' r1 = Some (GenObj g s1) \<and> objects w' r2 = Some (GenObj g s2) \<longrightarrow>
        fst (consume r2 (advance k r1 w')) = fst (consume r2 w') \<and>
        fst (consume r1 (advance k r2 w')) = fst (consume r1 w'))"
proof -
  let ?r1 = "next_ref w" and ?r2 = "Suc (next_ref w)"
  let ?w2 = "w\<lparr>objects := (objects w)(?r1 \<mapsto> GenObj g Created, ?r2 \<mapsto> GenObj g Created),
               next_ref := Suc (Suc (next_ref w))\<rparr>"
  let ?full = "run g (fst (glob w (file_path g) (pattern g))) (snd (glob w (file_path g) (pattern g)))"
  have ne: "?r1 \<noteq> ?r2" by simp
  have o1: "objects ?w2 ?r1 = Some (GenObj g Created)" and o2: "objects ?w2 ?r2 = Some (GenObj g Created)"
    by simp_all
  have e: "Source_call g w = (?r1, w\<lparr>objects := (objects w)(?r1 \<mapsto> GenObj g Created), next_ref := ?r2\<rparr>)"
    by (simp add: Source_call_def forward_def)
  have f: "Source_call g (w\<lparr>objects := (objects w)(?r1 \<mapsto> GenObj g Created), next_ref := ?r2\<rparr>) = (?r2, ?w2)"
    by (simp add: Source_call_def forward_def)
  have full: "fst (list_of_call g w) = ?full"
    by (simp add: list_of_call_run)
  have c: "consume ?r1 ?w2 = (?full, ?w2\<lparr>scans := scans ?w2 @ [(file_path g, pattern g)],
              objects := (objects ?w2)(?r1 \<mapsto> GenObj g Finished)\<rparr>)"
    using consume_Created [OF o1] by simp
  let ?w3 = "?w2\<lparr>scans := scans ?w2 @ [(file_path g, pattern g)],
              objects := (objects ?w2)(?r1 \<mapsto> GenObj g Finished)\<rparr>"
  have o3: "objects ?w3 ?r2 = Some (GenObj g Created)" by simp
  have d: "consume ?r2 ?w3 = (?full, ?w3\<lparr>scans := scans ?w3 @ [(file_path g, pattern g)],
              objects := (objects ?w3)(?r2 \<mapsto> GenObj g Finished)\<rparr>)"
    using consume_Created [OF o3] by simp
  have t1: "fst (consume ?r1 ?w2) = ?full" and t2: "fst (consume ?r2 ?w2) = ?full"
    using consume_Created [OF o1] consume_Created [OF o2] by simp_all
  have k2: "fst (consume ?r2 (advance k ?r1 ?w2)) = fst (list_of_call g w)"
    using consume_after_other [OF ne o1 o2, of k] t2 full by simp
  have k3: "fst (consume ?r1 (advance k ?r2 ?w2)) = fst (list_of_call g w)"
    using consume_after_other [OF ne [symmetric] o2 o1, of k] t1 full by simp
  have k4: "fst (consume ?r2 (snd (consume ?r1 ?w2))) = fst (consume ?r1 ?w2)"
    by (simp only: c d fst_conv snd_conv)
  have k5: "mset (fst (fst (consume ?r1 ?w2))) = mset (fst (fst (consume ?r2 (snd (consume ?r1 ?w2)))))"
    by (simp only: k4)
  have k6: "scans (snd (consume ?r2 (snd (consume ?r1 ?w2)))) =
      scans w @ [(file_path g, pattern g), (file_path g, pattern g)]"
    by (simp only: c d fst_conv snd_conv) simp
  have n1: "fst (fst (consume ?r2 (advance j ?r2 ?w2))) = drop j (fst (fst (list_of_call g w)))"
    using consume_advance_Created [OF o2, of j] full by simp
  have n2: "fst (fst (consume ?r1 (advance j ?r1 ?w2))) = drop j (fst (fst (list_of_call g w)))"
    using consume_advance_Created [OF o1, of j] full by simp
  from advance_GenObj [OF o2, of j] ne obtain s2 where
    j2: "objects (advance j ?r2 ?w2) ?r2 = Some (GenObj g s2)"
    and j1: "objects (advance j ?r2 ?w2) ?r1 = Some (GenObj g Created)"
    and jn: "next_ref (advance j ?r2 ?w2) = Suc (Suc (next_ref w))"
    by auto
  from advance_GenObj [OF o1, of j] ne obtain s1 where
    i1: "objects (advance j ?r1 ?w2) ?r1 = Some (GenObj g s1)"
    and i2: "objects (advance j ?r1 ?w2) ?r2 = Some (GenObj g Created)"
    by auto
  have n3: "fst (consume ?r2 (advance k ?r1 (advance j ?r2 ?w2))) = fst (consume ?r2 (advance j ?r2 ?w2))"
    by (rule consume_after_other [OF ne j1 j2])
  have n4: "fst (consume ?r1 (advance k ?r2 (advance j ?r1 ?w2))) = fst (consume ?r1 (advance j ?r1 ?w2))"
    by (rule consume_after_other [OF ne [symmetric] i2 i1])
  have n5: "fst (consume ?r2 (snd (consume ?r1 (advance j ?r2 ?w2)))) = fst (consume ?r2 (advance j ?r2 ?w2))"
    using j2 ne by (intro consume_same_state [where g = g and st = s2]) (simp_all add: consume_Created [OF j1])
  have n6: "fst (consume ?r2 (snd (list_of_call g (advance j ?r2 ?w2)))) = fst (consume ?r2 (advance j ?r2 ?w2))"
    using j2 jn by (intro consume_same_state [where g = g and st = s2]) (simp_all add: list_of_call_run)
  have n7: "\<forall>w' s1 s2. objects w' ?r1 = Some (GenObj g s1) \<and> objects w' ?r2 = Some (GenObj g s2) \<longrightarrow>
        fst (consume ?r2 (advance k ?r1 w')) = fst (consume ?r2 w') \<and>
        fst (consume ?r1 (advance k ?r2 w')) = fst (consume ?r1 w')"
    using consume_after_other [OF ne] consume_after_other [OF ne [symmetric]] by blast
  show ?thesis
    unfolding Let_def e f fst_conv snd_conv
    using ne k2 k3 k4 k5 k6 n1 n2 n3 n4 n5 n6 n7 by blast
qed

theorem invocations_independent_witness:
  "let c1 = Source_call (new_GlobSource ''txt_file'' (Str ''data_dir'') ''*.txt'' None) example_world;
       r1 = fst c1;
       c2 = Source_call (new_GlobSource ''txt_file'' (Str ''data_dir'') ''*.txt'' None) (snd c1);
       r2 = fst c2; w2 = snd c2 in
     r1 \<noteq> r2 \<and>
     fst (consume r2 (advance 2 r1 w2)) =
       ([([''file_name'' \<mapsto> PyStr ''a''], [''txt_file'' \<mapsto> Path ''data_dir/a.txt'']),
         ([''file_name'' \<mapsto> PyStr ''b''], [''txt_file'' \<mapsto> Path ''data_dir/b.txt''])], None) \<and>
     fst (fst (consume r2 (advance 2 r1 (advance 1 r2 w2)))) =
       [([''file_name'' \<mapsto> PyStr ''b''], [''txt_file'' \<mapsto> Path ''data_dir/b.txt''])]"
proof -
  let ?g = "new_GlobSource ''txt_file'' (Str ''data_dir'') ''*.txt'' None"
  have l: "fst (list_of_call ?g example_world) =
       ([([''file_name'' \<mapsto> PyStr ''a''], [''txt_file'' \<mapsto> Path ''data_dir/a.txt'']),
         ([''file_name'' \<mapsto> PyStr ''b''], [''txt_file'' \<mapsto> Path ''data_dir/b.txt''])], None)"
    by (simp add: list_of_call_run new_GlobSource_simps example_world_def example_glob_def
        apply_tag_function_def call_def default_tag_function_def stem_a stem_b)
  from invocations_independent [of ?g example_world 2 1] show ?thesis
    unfolding Let_def l by simp
qed

subsection \<open>The descriptor\<close>

text \<open>
  Claim C2. Two \<open>GlobSource\<close> instances constructed with identical name, root, pattern and
  tag function (one function object, or \<open>None\<close> twice) compare equal and have the same
  hash; two instances that differ in one of these attributes compare unequal.
\<close>

theorem eq_hash_law:
  "((n = n' \<and> d = d' \<and> p = p' \<and> callable_eq tf tf') \<longrightarrow>
      GlobSource_eq (new_GlobSource n d p tf) (new_GlobSource n' d' p' tf') \<and>
      GlobSource_hash h (new_GlobSource n d p tf) = GlobSource_hash h (new_GlobSource n' d' p' tf')) \<and>
   ((n \<noteq> n' \<or> d \<noteq> d' \<or> p \<noteq> p' \<or>
     \<not> callable_eq (tag_function (new_GlobSource n d p tf)) (tag_function (new_GlobSource n' d' p' tf'))) \<longrightarrow>
      \<not> GlobSource_eq (new_GlobSource n d p tf) (new_GlobSource n' d' p' tf'))"
  by (auto simp: GlobSource_eq_def GlobSource_hash_def new_GlobSource_simps callable_eq_def
      split: option.splits)

theorem eq_hash_law_witness:
  "GlobSource_eq (new_GlobSource ''txt_file'' (Str ''data_dir'') ''*.txt'' (Some date_tag))
                 (new_GlobSource ''txt_file'' (Str ''data_dir'') ''*.txt'' (Some date_tag)) \<and>
   GlobSource_hash example_hasher (new_GlobSource ''txt_file'' (Str ''data_dir'') ''*.txt'' (Some date_tag)) =
   GlobSource_hash example_hasher (new_GlobSource ''txt_file'' (Str ''data_dir'') ''*.txt'' (Some date_tag)) \<and>
   \<not> GlobSource_eq (new_GlobSource ''txt_file'' (Str ''data_dir'') ''*.txt'' (Some date_tag))
                   (new_GlobSource ''txt_file'' (Path ''data_dir'') ''*.txt'' (Some date_tag)) \<and>
   \<not> GlobSource_eq (new_GlobSource ''txt_file'' (Str ''data_dir'') ''*.txt'' (Some date_tag))
                   (new_GlobSource ''txt_file'' (Str ''data_dir'') ''*.txt'' None)"
proof -
  have a: "callable_eq (Some date_tag) (Some date_tag)"
    by (simp add: callable_eq_def)
  have b: "\<not> callable_eq
      (tag_function (new_GlobSource ''txt_file'' (Str ''data_dir'') ''*.txt'' (Some date_tag)))
      (tag_function (new_GlobSource ''txt_file'' (Str ''data_dir'') ''*.txt'' None))"
    by (simp add: callable_eq_def new_GlobSource_simps date_tag_def default_tag_function_def)
  from
    eq_hash_law [of "''txt_file''" "''txt_file''" "Str ''data_dir''" "Str ''data_dir''" "''*.txt''"
      "''*.txt''" "Some date_tag" "Some date_tag" example_hasher]
    eq_hash_law [of "''txt_file''" "''txt_file''" "Str ''data_dir''" "Path ''data_dir''" "''*.txt''"
      "''*.txt''" "Some date_tag" "Some date_tag" example_hasher]
    eq_hash_law [of "''txt_file''" "''txt_file''" "Str ''data_dir''" "Str ''data_dir''" "''*.txt''"
      "''*.txt''" "Some date_tag" None example_hasher]
    a b
  show ?thesis by simp
qed

text \<open>
  Claim C9, as the code has it. The string representation of a \<open>GlobSource\<close> is exactly
  \<open>GlobSource(\<close>, the root joined with the pattern as one path expression, \<open>)\<close>, the arrow
  between two spaces, and the name.
\<close>

theorem repr_exact:
  "GlobSource_repr (new_GlobSource n d p tf) =
     ''GlobSource('' @ joinpath_str d p @ '')'' @ arrow @ n"
  by (simp add: GlobSource_repr_def new_GlobSource_simps)

theorem repr_exact_witness:
  "GlobSource_repr (new_GlobSource ''txt_file'' (Str ''data_dir'') ''*.txt'' None) =
     ''GlobSource(data_dir/*.txt)'' @ arrow @ ''txt_file''"
  using repr_exact [of "''txt_file''" "Str ''data_dir''" "''*.txt''" None]
  by (simp add: join_data_dir_txt)

text \<open>
  The representation is not the joined path, the arrow and the name with nothing else:
  the class name and the parentheses stand around the path.
\<close>

theorem repr_bare_counterexample:
  "GlobSource_repr (new_GlobSource ''txt_file'' (Str ''data_dir'') ''*.txt'' None) \<noteq>
     joinpath_str (Str ''data_dir'') ''*.txt'' @ arrow @ ''txt_file''"
  by (simp add: GlobSource_repr_def new_GlobSource_simps join_data_dir_txt)

text \<open>
  Claim C10. After construction the attribute \<open>tag_function\<close> is never \<open>None\<close>: given
  \<open>None\<close> the constructor stores the default tag function of the class, and a supplied
  function is stored as it is; so every later application of the attribute to a match
  is a call of that function.
\<close>

theorem tag_function_never_None:
  "tag_function (new_GlobSource n d p tf) \<noteq> None \<and>
   tag_function (new_GlobSource n d p None) = Some default_tag_function \<and>
   tag_function (new_GlobSource n d p (Some c)) = Some c \<and>
   apply_tag_function (new_GlobSource n d p tf) f =
     call (case tf of None \<Rightarrow> default_tag_function | Some c \<Rightarrow> c) f"
  by (simp add: new_GlobSource_simps apply_tag_function_def)

theorem tag_function_never_None_witness:
  "tag_function (new_GlobSource ''file'' (Str ''reports'') ''*'' None) = Some default_tag_function \<and>
   tag_function (new_GlobSource ''file'' (Str ''reports'') ''*'' (Some date_tag)) = Some date_tag \<and>
   apply_tag_function (new_GlobSource ''file'' (Str ''reports'') ''*'' None)
       (Path ''reports/20230101_report.txt'') =
     Inr [''file_name'' \<mapsto> PyStr ''20230101_report'']"
  using tag_function_never_None [of "''file''" "Str ''reports''" "''*''" None date_tag
      "Path ''reports/20230101_report.txt''"]
  by (simp add: call_def default_tag_function_def stem_report)

end
